theory Spec2Isabelle
  imports Main "HOL-Library.Sublist" "HOL-Library.AList" "HOL-Library.Multiset"
begin

section \<open>The aggregator-script generator \<open>main_script_creator.py\<close>\<close>

text \<open>
  The script reads a header and a footer template, lists a directory, counts the entries
  per model name (the text before \<open>.Test.\<close>), renders one aggregator text per model and
  writes it to \<open>MODEL.xml\<close> in a destination folder.

  Python strings are \<open>string\<close>, Python integers are \<open>int\<close>. The dictionary \<open>models\<close>
  is an association list in insertion order with distinct keys, which is the order
  \<open>models.items()\<close> iterates in. Exceptions are values of \<open>error\<close>; a function that can
  raise returns \<open>error + 'a\<close>. Everything the script does to its environment (opening
  files, listing a directory, printing) is recorded in a \<open>world\<close> that is passed through.
\<close>

subsection \<open>Exceptions\<close>

text \<open>
  \<open>IOError\<close> is an alias of \<open>OSError\<close> (the script calls \<open>print()\<close> with no argument,
  so it is Python 3); the argument is the path the failing call was given.
  \<open>ValueError\<close> is what \<open>str.split\<close> raises on an empty separator and \<open>IndexError\<close>
  what a list index out of range raises. \<open>UnicodeDecodeError\<close> is what \<open>read()\<close> raises
  on bytes that are no text in the encoding of the file object, and \<open>UnicodeEncodeError\<close>
  what \<open>write()\<close> raises on text that encoding cannot express; neither is an \<open>OSError\<close>.
\<close>

datatype error =
  OSError string | ValueError | IndexError | UnicodeDecodeError | UnicodeEncodeError

subsection \<open>String and list primitives of Python\<close>

text \<open>\<open>sub in s\<close>: some suffix of \<open>s\<close> starts with \<open>sub\<close>.\<close>

fun str_contains :: "string \<Rightarrow> string \<Rightarrow> bool" where
  "str_contains sub [] = (sub = [])"
| "str_contains sub (c # cs) = (prefix sub (c # cs) \<or> str_contains sub cs)"

text \<open>
  \<open>s.split(sep)\<close> scans from the left; \<open>cur\<close> is the field collected so far. At each
  occurrence of \<open>sep\<close> the field is closed and the scan goes on behind the occurrence.
\<close>

function split_from :: "string \<Rightarrow> string \<Rightarrow> string \<Rightarrow> string list" where
  "split_from sep cur [] = [cur]"
| "split_from sep cur (c # cs) =
     (if sep \<noteq> [] \<and> prefix sep (c # cs)
      then cur # split_from sep [] (drop (length sep) (c # cs))
      else split_from sep (cur @ [c]) cs)"
  by pat_completeness auto
termination
  by (relation "measure (\<lambda>(sep, cur, s). length s)") (auto simp: neq_Nil_conv)

definition str_split :: "string \<Rightarrow> string \<Rightarrow> error + string list" where
  "str_split s sep = (if sep = [] then Inl ValueError else Inr (split_from sep [] s))"

text \<open>\<open>xs[i]\<close> for an index \<open>i \<ge> 0\<close>.\<close>

definition list_index :: "'a list \<Rightarrow> nat \<Rightarrow> error + 'a" where
  "list_index xs i = (if i < length xs then Inr (xs ! i) else Inl IndexError)"

text \<open>\<open>s.endswith(suf)\<close>.\<close>

definition str_endswith :: "string \<Rightarrow> string \<Rightarrow> bool" where
  "str_endswith s suf \<longleftrightarrow>
     length suf \<le> length s \<and> drop (length s - length suf) s = suf"

text \<open>The decimal digits of a natural number, most significant first, as \<open>str\<close> gives them.\<close>

fun dec_digits :: "nat \<Rightarrow> string" where
  "dec_digits n =
     (if n < 10 then [''0123456789'' ! n]
      else dec_digits (n div 10) @ [''0123456789'' ! (n mod 10)])"

declare dec_digits.simps [simp del]

text \<open>
  \<open>format(i, '03d')\<close>: the sign of a negative number, then zeros up to a total width
  of 3, then the digits. The subtraction is on \<open>nat\<close>: nothing is padded, and nothing is
  cut, when sign and digits already fill the width.
\<close>

definition format_03d :: "int \<Rightarrow> string" where
  "format_03d i =
     (let sign = (if i < 0 then ''-'' else '''');
          digits = dec_digits (nat \<bar>i\<bar>)
      in sign @ replicate (3 - length sign - length digits) (CHR ''0'') @ digits)"

subsection \<open>The model table\<close>

type_synonym models = "(string \<times> int) list"

text \<open>
  The loop of \<open>scan_for_models\<close> over the listed names. \<open>AList.update\<close> is the
  assignment \<open>models[k] = v\<close>: it replaces the value of a key that is there and appends
  a key that is not.
\<close>

fun count_models :: "string list \<Rightarrow> models \<Rightarrow> error + models" where
  "count_models [] models = Inr models"
| "count_models (filename # filenames) models =
     (if str_contains ''.Test.'' filename then
        (case str_split filename ''.Test.'' of
           Inl e \<Rightarrow> Inl e
         | Inr parts \<Rightarrow>
            (case list_index parts 0 of
               Inl e \<Rightarrow> Inl e
             | Inr model_name \<Rightarrow>
                 count_models filenames
                   (case map_of models model_name of
                      None \<Rightarrow> AList.update model_name 1 models
                    | Some n \<Rightarrow> AList.update model_name (n + 1) models)))
      else count_models filenames models)"

subsection \<open>Rendering\<close>

text \<open>
  The body of the loop of \<open>create_main_string\<close>: one include line is appended to the
  text built so far.
\<close>

definition add_include :: "string \<Rightarrow> int \<Rightarrow> string \<Rightarrow> string" where
  \<open>add_include model_name i main_string =
     main_string @ (''<INCLUDE FileName="'' @ model_name @ ''.Test.'' @ format_03d i @
       ''.xml" '' @ ''NameSpace="" TAB="10" LineComment="0"/>'' @ ''\<newline>'')\<close>

text \<open>\<open>[1..tests_count]\<close> is \<open>range(1, tests_count + 1)\<close>, empty when \<open>tests_count < 1\<close>.\<close>

definition create_main_string :: "string \<Rightarrow> int \<Rightarrow> string \<Rightarrow> string \<Rightarrow> string" where
  "create_main_string model_name tests_count header footer =
     fold (add_include model_name) [1..tests_count] header @ footer"

subsection \<open>The environment\<close>

text \<open>
  What the script prints, and what it asks of the file system, in the order it happens.
  \<open>PrintFmt fmt e\<close> is \<open>print(fmt % e)\<close> and \<open>PrintErr e\<close> is \<open>print(e)\<close>: the text of
  an exception belongs to the runtime. \<open>PPrint\<close> is \<open>pprint.pprint\<close> of the table.
\<close>

datatype event =
    Print string
  | PrintFmt string error
  | PrintErr error
  | PPrint models
  | OpenRead string
  | ListDir string
  | OpenWrite string

text \<open>
  What a file that can be opened for reading holds: text, which \<open>read()\<close> returns, or
  bytes that \<open>read()\<close> cannot decode.
\<close>

datatype content = Text string | Undecodable

text \<open>
  How a write to a file that was opened can fail. \<open>DiskFull n\<close>: the device takes \<open>n\<close>
  characters and no more, and the write, or the flush when the file is closed, raises an
  \<open>OSError\<close>. \<open>Unencodable\<close>: \<open>write()\<close> raises a \<open>UnicodeEncodeError\<close> before anything
  reaches the file.
\<close>

datatype write_fault = DiskFull nat | Unencodable

text \<open>
  \<open>files\<close> maps the path of a file that can be opened for reading to what it holds,
  \<open>dirs\<close> the path of a directory that can be listed to its entry names in the order
  \<open>os.listdir\<close> returns them. \<open>wdenied\<close> holds the paths that cannot be opened for
  writing, and \<open>wfault\<close> says for which paths a write after the opening fails, and how;
  the script changes neither. It lists its directory once, before it writes, so \<open>dirs\<close>
  is not kept up to date with the files written.
\<close>

record world =
  files :: "string \<rightharpoonup> content"
  dirs :: "string \<rightharpoonup> string list"
  wdenied :: "string set"
  wfault :: "string \<rightharpoonup> write_fault"
  log :: "event list"

definition emit :: "event \<Rightarrow> world \<Rightarrow> world" where
  "emit e w = w\<lparr>log := log w @ [e]\<rparr>"

subsection \<open>Loading the templates\<close>

text \<open>
  \<open>open\<close> and \<open>read\<close> inside \<open>try\<close>: an \<open>IOError\<close> is reported and raised again; a
  decoding error is no \<open>IOError\<close> and leaves the function as it is.
\<close>

definition load_header :: "world \<Rightarrow> string \<Rightarrow> (error + string) \<times> world" where
  "load_header w path_to_header_file =
     (let w1 = emit (OpenRead path_to_header_file) w in
      case files w1 path_to_header_file of
        Some (Text header) \<Rightarrow> (Inr header, w1)
      | Some Undecodable \<Rightarrow> (Inl UnicodeDecodeError, w1)
      | None \<Rightarrow>
          (Inl (OSError path_to_header_file),
           emit (PrintFmt ''Couldn't read header file \<newline>(%s).''
                   (OSError path_to_header_file)) w1))"

definition load_footer :: "world \<Rightarrow> string \<Rightarrow> (error + string) \<times> world" where
  "load_footer w path_to_footer_file =
     (let w1 = emit (OpenRead path_to_footer_file) w in
      case files w1 path_to_footer_file of
        Some (Text footer) \<Rightarrow> (Inr footer, w1)
      | Some Undecodable \<Rightarrow> (Inl UnicodeDecodeError, w1)
      | None \<Rightarrow>
          (Inl (OSError path_to_footer_file),
           emit (PrintErr (OSError path_to_footer_file))
             (emit (PrintFmt ''Couldn't read footer file (%s).''
                      (OSError path_to_footer_file)) w1)))"

subsection \<open>Scanning\<close>

definition scan_for_models :: "world \<Rightarrow> string \<Rightarrow> (error + models) \<times> world" where
  "scan_for_models w script_folder_path =
     (let w1 = emit (ListDir script_folder_path) w in
      case dirs w1 script_folder_path of
        None \<Rightarrow>
          (Inl (OSError script_folder_path),
           emit (PrintErr (OSError script_folder_path))
             (emit (Print ''Error scaning origin directory!'') w1))
      | Some filenames \<Rightarrow> (count_models filenames [], w1))"

subsection \<open>Writing\<close>

text \<open>The path \<open>create_main_file\<close> opens: the folder, a backslash unless the folder
  ends with one, and the file name.\<close>

definition dest_path :: "string \<Rightarrow> string \<Rightarrow> string" where
  "dest_path model_name destination_folder =
     (let file_name = model_name @ ''.xml'';
          destination_folder' =
            (if \<not> str_endswith destination_folder [CHR 0x5C]
             then destination_folder @ [CHR 0x5C] else destination_folder)
      in destination_folder' @ file_name)"

text \<open>
  Mode \<open>w+\<close> creates the file or empties it, so the text written is all it holds. When
  the opening fails the file is as it was. When the write fails after the opening, the
  file holds what reached it: a part of the text, or nothing. An \<open>IOError\<close> is reported
  and raised again; an encoding error is no \<open>IOError\<close> and leaves the function as it is.
\<close>

definition create_main_file ::
  "world \<Rightarrow> string \<Rightarrow> string \<Rightarrow> string \<Rightarrow> (error + int) \<times> world" where
  "create_main_file w model_name main_string destination_folder =
     (let dest = dest_path model_name destination_folder;
          w1 = emit (OpenWrite dest) w
      in if dest \<in> wdenied w1
         then (Inl (OSError dest),
               emit (PrintFmt ''Couldn't open or write to file (%s).'' (OSError dest)) w1)
         else
           (case wfault w1 dest of
              None \<Rightarrow> (Inr 0, w1\<lparr>files := (files w1)(dest \<mapsto> Text main_string)\<rparr>)
            | Some (DiskFull n) \<Rightarrow>
                (Inl (OSError dest),
                 emit (PrintFmt ''Couldn't open or write to file (%s).'' (OSError dest))
                   (w1\<lparr>files := (files w1)(dest \<mapsto> Text (take n main_string))\<rparr>))
            | Some Unencodable \<Rightarrow>
                (Inl UnicodeEncodeError, w1\<lparr>files := (files w1)(dest \<mapsto> Text [])\<rparr>)))"

subsection \<open>The entry point\<close>

record args =
  origin_folder :: string
  destination_folder :: string
  path_to_header :: string
  path_to_footer :: string
  verbose :: bool

text \<open>
  How the process ends: \<open>sys.exit(n)\<close>, or an exception nobody caught, on which the
  interpreter prints a traceback and exits with status 1.
\<close>

datatype outcome = Exit int | Uncaught error

fun exit_status :: "outcome \<Rightarrow> int" where
  "exit_status (Exit n) = n"
| "exit_status (Uncaught e) = 1"

text \<open>The handlers \<open>except IOError: sys.exit(1)\<close> and \<open>except OSError: sys.exit(1)\<close>.\<close>

fun except_OSError :: "error \<Rightarrow> outcome" where
  "except_OSError (OSError p) = Exit 1"
| "except_OSError e = Uncaught e"

text \<open>
  The loop over \<open>models.items()\<close>. \<open>None\<close> says that the loop ran to its end; the
  script then goes on behind it.
\<close>

fun write_models ::
  "world \<Rightarrow> models \<Rightarrow> string \<Rightarrow> string \<Rightarrow> string \<Rightarrow> outcome option \<times> world" where
  "write_models w [] header footer destination = (None, w)"
| "write_models w ((model_name, test_count) # rest) header footer destination =
     (let main_string = create_main_string model_name test_count header footer in
      case create_main_file w model_name main_string destination of
        (Inl e, w') \<Rightarrow> (Some (except_OSError e), w')
      | (Inr r, w') \<Rightarrow> write_models w' rest header footer destination)"

text \<open>
  \<open>main\<close>, from the value of \<open>platform.system()\<close> and the arguments as \<open>argparse\<close>
  returns them.
\<close>

definition main :: "string \<Rightarrow> args \<Rightarrow> world \<Rightarrow> outcome \<times> world" where
  "main platform_system a w =
     (if platform_system \<noteq> ''Windows''
      then (Exit 1, emit (Print ''This script only runs properly on Windows.\<newline>'') w)
      else
        let w1 = (if verbose a then emit (Print ''\<newline>Verbosity turned on!\<newline>'') w else w) in
        (case load_header w1 (path_to_header a) of
          (Inl e, w2) \<Rightarrow> (except_OSError e, w2)
        | (Inr header, w2) \<Rightarrow>
           (let w3 = (if verbose a
                      then emit (Print ''Header successfully loaded!\<newline>'') w2 else w2) in
            (case load_footer w3 (path_to_footer a) of
              (Inl e, w4) \<Rightarrow> (except_OSError e, w4)
            | (Inr footer, w4) \<Rightarrow>
               (let w5 = (if verbose a
                          then emit (Print ''Footer successfully loaded!\<newline>'') w4 else w4) in
                (case scan_for_models w5 (origin_folder a) of
                  (Inl e, w6) \<Rightarrow> (except_OSError e, w6)
                | (Inr models, w6) \<Rightarrow>
                   (let w7 = (if verbose a
                              then emit (Print '''')
                                     (emit (PPrint models)
                                        (emit (Print (''The folliwng models detected are shown as: '' @
                                           ''{'model_name': test_count}\<newline>'')) w6))
                              else w6) in
                    (case write_models w7 models header footer (destination_folder a) of
                      (Some out, w8) \<Rightarrow> (out, w8)
                    | (None, w8) \<Rightarrow>
                        (Exit 0,
                         if verbose a
                         then emit (Print ''Created model_name.xml files successfully!'') w8
                         else w8)))))))))"

subsection \<open>Notions the properties are stated with\<close>




text \<open>
  The part of a name before the first occurrence of a separator: \<open>g\<close> is followed by
  the separator in \<open>f\<close>, and no occurrence of the separator starts earlier. An entry
  \<open>f\<close> is counted toward the group \<open>g\<close> when it contains the literal \<open>.Test.\<close>
  (\<open>sublist\<close>: a contiguous run of the name) and \<open>g\<close> is the part before its first
  occurrence; \<open>tally\<close> is the number of entries of a listing counted toward \<open>g\<close>.
  \<open>table_after m fs\<close> is the table \<open>m\<close> with the tallies of \<open>fs\<close> added.
\<close>

definition is_part_before_first :: "string \<Rightarrow> string \<Rightarrow> string \<Rightarrow> bool" where
  "is_part_before_first sep f g \<longleftrightarrow>
     (\<exists>r. f = g @ sep @ r) \<and> (\<forall>p r. f = p @ sep @ r \<longrightarrow> length g \<le> length p)"

definition counted_toward :: "string \<Rightarrow> string \<Rightarrow> bool" where
  "counted_toward f g \<longleftrightarrow> sublist ''.Test.'' f \<and> is_part_before_first ''.Test.'' f g"

definition tally :: "string list \<Rightarrow> string \<Rightarrow> nat" where
  "tally fs g = length (filter (\<lambda>f. counted_toward f g) fs)"

definition table_after :: "(string \<rightharpoonup> int) \<Rightarrow> string list \<Rightarrow> (string \<rightharpoonup> int)" where
  "table_after m fs = (\<lambda>g. if tally fs g = 0 then m g
                           else Some ((case m g of None \<Rightarrow> 0 | Some n \<Rightarrow> n) + int (tally fs g)))"

text \<open>
  What a run does to its environment apart from printing: the events of the log that
  are not prints. Two worlds have the same effects when they agree on the files, the
  directories, the paths that cannot be written, the write faults and these events.
\<close>

fun is_print :: "event \<Rightarrow> bool" where
  "is_print (Print s) = True"
| "is_print (PrintFmt s e) = True"
| "is_print (PrintErr e) = True"
| "is_print (PPrint t) = True"
| "is_print (OpenRead p) = False"
| "is_print (ListDir p) = False"
| "is_print (OpenWrite p) = False"

definition io_events :: "world \<Rightarrow> event list" where
  "io_events w = filter (\<lambda>e. \<not> is_print e) (log w)"



text \<open>
  The files after the aggregators of a table have been written in order, the events of
  opening them, and what it is for a group's destination to be writable: it can be
  opened for writing and the write will not fail.
\<close>

fun written ::
  "string \<Rightarrow> string \<Rightarrow> string \<Rightarrow> models \<Rightarrow> (string \<rightharpoonup> content) \<Rightarrow> (string \<rightharpoonup> content)" where
  "written header footer destination [] fm = fm"
| "written header footer destination ((g, c) # tbl) fm =
     written header footer destination tbl
       (fm(dest_path g destination \<mapsto> Text (create_main_string g c header footer)))"

definition open_writes :: "string \<Rightarrow> models \<Rightarrow> event list" where
  "open_writes destination tbl = map (\<lambda>(g, c). OpenWrite (dest_path g destination)) tbl"

definition writable :: "world \<Rightarrow> string \<Rightarrow> string \<times> int \<Rightarrow> bool" where
  "writable w destination =
     (\<lambda>(g, c). dest_path g destination \<notin> wdenied w \<and> wfault w (dest_path g destination) = None)"

text \<open>A template can be loaded when its file can be opened and holds text.\<close>

definition readable :: "world \<Rightarrow> string \<Rightarrow> bool" where
  "readable w p =
     (case files w p of
        Some (Text t) \<Rightarrow> True
      | Some Undecodable \<Rightarrow> False
      | None \<Rightarrow> False)"

text \<open>
  Every step of a run succeeds: the platform is the expected one, both templates can be
  loaded, the directory can be listed and scanned, and the file of every group of the
  table is writable.
\<close>

definition all_steps_succeed :: "string \<Rightarrow> args \<Rightarrow> world \<Rightarrow> bool" where
  "all_steps_succeed p a w \<longleftrightarrow>
     p = ''Windows'' \<and>
     readable w (path_to_header a) \<and>
     readable w (path_to_footer a) \<and>
     (case dirs w (origin_folder a) of
        None \<Rightarrow> False
      | Some fs \<Rightarrow>
          (case count_models fs [] of
             Inl e \<Rightarrow> False
           | Inr tbl \<Rightarrow> list_all (writable w (destination_folder a)) tbl))"

text \<open>A run to try things on: two groups of one script each, nothing write-protected
  and no write that fails.\<close>

definition demo_args :: args where
  "demo_args = \<lparr>origin_folder = ''in'', destination_folder = ''out'',
                 path_to_header = ''h.txt'', path_to_footer = ''f.txt'', verbose = False\<rparr>"

definition demo_world :: world where
  "demo_world = \<lparr>files = [''h.txt'' \<mapsto> Text ''<H>'', ''f.txt'' \<mapsto> Text ''<F>''],
                  dirs = [''in'' \<mapsto> [''A.Test.001.xml'', ''B.Test.001.xml'']],
                  wdenied = {}, wfault = Map.empty, log = []\<rparr>"

section \<open>Properties\<close>

subsection \<open>Decimal digits and include lines\<close>

lemma fold_add_include:
  "fold (add_include g) xs acc = acc @ concat (map (\<lambda>i. add_include g i []) xs)"
  by (induction xs arbitrary: acc) (simp_all add: add_include_def)











text \<open>
  C1. For a count \<open>n \<ge> 1\<close>, the rendered text is the header, then for each \<open>i\<close> from
  1 to \<open>n\<close> the include line of \<open>i\<close> (zero-padded index, closed by a newline), then the
  footer, and nothing else; for \<open>n = 1\<close> it is the one line with index \<open>001\<close>.
\<close>

theorem create_main_string_layout:
  assumes "1 \<le> n"
  shows \<open>create_main_string g n header footer =
            header @
            concat (map (\<lambda>i. ''<INCLUDE FileName="'' @ g @ ''.Test.'' @ format_03d i @
                                 ''.xml" NameSpace="" TAB="10" LineComment="0"/>\<newline>'') [1..n]) @
            footer \<and>
         create_main_string g 1 header footer =
            header @
            ''<INCLUDE FileName="'' @ g @
              ''.Test.001.xml" NameSpace="" TAB="10" LineComment="0"/>\<newline>'' @
            footer\<close>
proof -
  have one: "[1..(1::int)] = [1]" by (simp add: upto_rec1)
  have f1: "format_03d 1 = ''001''" by code_simp
  show ?thesis
    by (simp add: create_main_string_def fold_add_include add_include_def one f1)
qed

theorem create_main_string_layout_witness:
  \<open>create_main_string ''A'' 3 ''<H>'' ''<F>'' =
     ''<H>'' @
     ''<INCLUDE FileName="A.Test.001.xml" NameSpace="" TAB="10" LineComment="0"/>\<newline>'' @
     ''<INCLUDE FileName="A.Test.002.xml" NameSpace="" TAB="10" LineComment="0"/>\<newline>'' @
     ''<INCLUDE FileName="A.Test.003.xml" NameSpace="" TAB="10" LineComment="0"/>\<newline>'' @
     ''<F>''\<close>
proof -
  have r: "[1..(3::int)] = [1, 2, 3]" by (simp add: upto_rec1)
  have f: "format_03d 1 = ''001''" "format_03d 2 = ''002''" "format_03d 3 = ''003''"
    by code_simp+
  have "(1::int) \<le> 3" by simp
  from create_main_string_layout [OF this, of "''A''" "''<H>''" "''<F>''"]
  show ?thesis by (simp add: r f)
qed



text \<open>
  C8. With a count below 1 the rendered text is the header followed by the footer, with
  no include line; rendering does not fail.
\<close>

theorem create_main_string_no_members:
  assumes "n < 1"
  shows "create_main_string g n header footer = header @ footer"
  using assms by (simp add: create_main_string_def)

theorem create_main_string_no_members_witness:
  "create_main_string ''A'' 0 ''<H>'' ''<F>'' = ''<H><F>'' \<and>
   create_main_string ''A'' (- 2) ''<H>'' ''<F>'' = ''<H><F>''"
  using create_main_string_no_members [of 0 "''A''" "''<H>''" "''<F>''"]
        create_main_string_no_members [of "- 2" "''A''" "''<H>''" "''<F>''"]
  by simp

subsection \<open>Scanning\<close>

lemma str_contains_sublist: "str_contains sub s \<longleftrightarrow> sublist sub s"
  by (induction s) (simp_all add: sublist_Cons_right)

lemma split_from_first:
  assumes "sep \<noteq> []" "is_part_before_first sep s g"
  shows "\<exists>r. s = g @ sep @ r \<and> split_from sep cur s = (cur @ g) # split_from sep [] r"
  using assms(2)
proof (induction g arbitrary: s cur)
  case Nil
  then obtain r where s: "s = sep @ r" unfolding is_part_before_first_def by auto
  with assms(1) have "s \<noteq> []" by simp
  then obtain c cs where cs: "s = c # cs" by (cases s) auto
  have "prefix sep s" using s by simp
  with cs assms(1) have "split_from sep cur s = cur # split_from sep [] (drop (length sep) s)"
    by simp
  with s show ?case by simp
next
  case (Cons a g)
  then have ex: "\<exists>r. s = (a # g) @ sep @ r"
    and least: "\<And>p r'. s = p @ sep @ r' \<Longrightarrow> length (a # g) \<le> length p"
    unfolding is_part_before_first_def by blast+
  from ex obtain r where s: "s = (a # g) @ sep @ r" by blast
  let ?t = "g @ sep @ r"
  have st: "s = a # ?t" using s by simp
  have np: "\<not> prefix sep s"
  proof
    assume "prefix sep s"
    then obtain r' where "s = [] @ sep @ r'" by (auto simp: prefix_def)
    from least[OF this] show False by simp
  qed
  have "is_part_before_first sep ?t g"
    unfolding is_part_before_first_def
  proof (intro conjI allI impI)
    show "\<exists>ra. ?t = g @ sep @ ra" by blast
  next
    fix p r' assume "?t = p @ sep @ r'"
    then have "s = (a # p) @ sep @ r'" using st by simp
    from least[OF this] show "length g \<le> length p" by simp
  qed
  from Cons.IH[OF this, of "cur @ [a]"]
  have "split_from sep (cur @ [a]) ?t = (cur @ a # g) # split_from sep [] r"
    by simp
  moreover have "split_from sep cur s = split_from sep (cur @ [a]) ?t"
    using np st by simp
  ultimately show ?case using s by simp
qed

lemma part_before_first_exists:
  assumes "sublist sep f"
  shows "\<exists>g. is_part_before_first sep f g"
proof -
  define P where "P n \<longleftrightarrow> (\<exists>p r. f = p @ sep @ r \<and> length p = n)" for n
  from assms obtain ps ss where "f = ps @ sep @ ss" unfolding sublist_def by (elim exE)
  then have "P (length ps)" unfolding P_def by (intro exI conjI) simp_all
  then have "P (LEAST n. P n)" by (rule LeastI)
  then obtain g r where g: "f = g @ sep @ r" and lg: "length g = (LEAST n. P n)"
    unfolding P_def by (elim exE conjE)
  have least: "length g \<le> length p" if "f = p @ sep @ r'" for p r'
  proof -
    from that have "P (length p)" unfolding P_def by (intro exI conjI) simp_all
    then have "(LEAST n. P n) \<le> length p" by (rule Least_le)
    with lg show ?thesis by simp
  qed
  show ?thesis
  proof (rule exI[of _ g])
    show "is_part_before_first sep f g"
      unfolding is_part_before_first_def
    proof (intro conjI allI impI)
      show "\<exists>r. f = g @ sep @ r" using g by (rule exI)
    next
      fix p r' assume "f = p @ sep @ r'"
      then show "length g \<le> length p" by (rule least)
    qed
  qed
qed

lemma part_before_first_unique:
  assumes "is_part_before_first sep f g" "is_part_before_first sep f h"
  shows "g = h"
proof -
  from assms(1) obtain r where fg: "f = g @ sep @ r"
    unfolding is_part_before_first_def by blast
  from assms(2) obtain r' where fh: "f = h @ sep @ r'"
    unfolding is_part_before_first_def by blast
  from assms(1) fh have "length g \<le> length h"
    unfolding is_part_before_first_def by blast
  moreover from assms(2) fg have "length h \<le> length g"
    unfolding is_part_before_first_def by blast
  ultimately have "length g = length h" by simp
  moreover from fg fh have "g @ sep @ r = h @ sep @ r'" by simp
  ultimately show ?thesis by simp
qed

lemma part_before_first_sublist: "is_part_before_first sep f g \<Longrightarrow> sublist sep f"
  unfolding is_part_before_first_def sublist_def by blast

lemma model_name_of:
  assumes "str_contains ''.Test.'' f"
  shows "\<exists>parts m. str_split f ''.Test.'' = Inr parts \<and> list_index parts 0 = Inr m \<and>
           (\<forall>g. counted_toward f g \<longleftrightarrow> g = m)"
proof -
  from assms have sub: "sublist ''.Test.'' f" by (simp add: str_contains_sublist)
  then obtain m where m: "is_part_before_first ''.Test.'' f m"
    using part_before_first_exists by blast
  have ne: "''.Test.'' \<noteq> []" by simp
  from split_from_first[OF ne m, of "[]"] obtain r where
    sp: "split_from ''.Test.'' [] f = m # split_from ''.Test.'' [] r" by auto
  have a: "str_split f ''.Test.'' = Inr (m # split_from ''.Test.'' [] r)"
    by (simp add: str_split_def sp)
  have b: "list_index (m # split_from ''.Test.'' [] r) 0 = Inr m"
    by (simp add: list_index_def)
  have c: "counted_toward f g \<longleftrightarrow> g = m" for g
    using sub m part_before_first_unique[of "''.Test.''" f g m]
    by (auto simp: counted_toward_def)
  from a b c show ?thesis by blast
qed

lemma not_counted: "\<not> str_contains ''.Test.'' f \<Longrightarrow> \<not> counted_toward f g"
  by (simp add: counted_toward_def str_contains_sublist)

lemma map_of_increment:
  fixes tbl :: models
  shows "map_of (case map_of tbl m of None \<Rightarrow> AList.update m 1 tbl
           | Some n \<Rightarrow> AList.update m (n + 1) tbl) =
   (map_of tbl)(m \<mapsto> (case map_of tbl m of None \<Rightarrow> 0 | Some n \<Rightarrow> n) + 1)"
  by (cases "map_of tbl m") (simp_all add: update_conv fun_eq_iff)

lemma distinct_increment:
  "distinct (map fst tbl) \<Longrightarrow>
   distinct (map fst (case map_of tbl m of None \<Rightarrow> AList.update m 1 tbl
                      | Some n \<Rightarrow> AList.update m (n + 1) tbl))"
  by (cases "map_of tbl m") (simp_all add: distinct_update)

lemma table_after_Nil: "table_after mp [] = mp"
  by (simp add: table_after_def tally_def)

lemma table_after_skip:
  assumes "\<not> str_contains ''.Test.'' f"
  shows "table_after mp (f # fs) = table_after mp fs"
proof -
  have "tally (f # fs) g = tally fs g" for g
    using assms by (simp add: tally_def not_counted)
  then show ?thesis by (simp add: table_after_def cong: if_cong)
qed

lemma table_after_count:
  assumes "\<And>g. counted_toward f g \<longleftrightarrow> g = m"
  shows "table_after (mp(m \<mapsto> (case mp m of None \<Rightarrow> 0 | Some n \<Rightarrow> n) + 1)) fs =
         table_after mp (f # fs)"
proof (rule ext)
  fix g
  have t: "tally (f # fs) h = (if h = m then Suc (tally fs h) else tally fs h)" for h
    by (simp add: tally_def assms)
  show "table_after (mp(m \<mapsto> (case mp m of None \<Rightarrow> 0 | Some n \<Rightarrow> n) + 1)) fs g =
        table_after mp (f # fs) g"
  proof (cases "g = m")
    case True
    then show ?thesis by (cases "mp m") (simp_all add: table_after_def t)
  next
    case False
    then show ?thesis by (simp add: table_after_def t)
  qed
qed

lemma count_models_skip:
  "\<not> str_contains ''.Test.'' f \<Longrightarrow> count_models (f # fs) tbl = count_models fs tbl"
  by (simp only: count_models.simps if_False)

lemma count_models_count:
  assumes "str_contains ''.Test.'' f" "str_split f ''.Test.'' = Inr parts"
    "list_index parts 0 = Inr m"
  shows "count_models (f # fs) tbl =
         count_models fs (case map_of tbl m of None \<Rightarrow> AList.update m 1 tbl
                          | Some n \<Rightarrow> AList.update m (n + 1) tbl)"
  by (simp only: count_models.simps assms if_True sum.case)

lemma count_models_table:
  "\<exists>tbl'. count_models fs tbl = Inr tbl' \<and>
          (distinct (map fst tbl) \<longrightarrow> distinct (map fst tbl')) \<and>
          map_of tbl' = table_after (map_of tbl) fs"
proof (induction fs arbitrary: tbl)
  case Nil
  have "count_models [] tbl = Inr tbl" by (simp only: count_models.simps)
  moreover have "map_of tbl = table_after (map_of tbl) []" by (simp only: table_after_Nil)
  ultimately show ?case by blast
next
  case (Cons f fs)
  show ?case
  proof (cases "str_contains ''.Test.'' f")
    case False
    from Cons[of tbl] obtain tbl' where
      r: "count_models fs tbl = Inr tbl'"
      and d: "distinct (map fst tbl) \<longrightarrow> distinct (map fst tbl')"
      and mp: "map_of tbl' = table_after (map_of tbl) fs" by blast
    have "count_models (f # fs) tbl = Inr tbl'"
      by (simp only: count_models_skip[OF False] r)
    moreover have "map_of tbl' = table_after (map_of tbl) (f # fs)"
      using mp by (simp only: table_after_skip[OF False])
    ultimately show ?thesis using d by blast
  next
    case True
    from model_name_of[OF True] obtain parts m where
      sp: "str_split f ''.Test.'' = Inr parts" and ix: "list_index parts 0 = Inr m"
      and cnt: "\<And>g. counted_toward f g \<longleftrightarrow> g = m" by blast
    define tbl1 where "tbl1 = (case map_of tbl m of None \<Rightarrow> AList.update m 1 tbl
                 | Some n \<Rightarrow> AList.update m (n + 1) tbl)"
    have step: "count_models (f # fs) tbl = count_models fs tbl1"
      unfolding tbl1_def using True sp ix by (rule count_models_count)
    have m1: "map_of tbl1 = (map_of tbl)(m \<mapsto> (case map_of tbl m of None \<Rightarrow> 0 | Some n \<Rightarrow> n) + 1)"
      unfolding tbl1_def by (rule map_of_increment)
    have d1: "distinct (map fst tbl) \<longrightarrow> distinct (map fst tbl1)"
      unfolding tbl1_def by (rule impI) (rule distinct_increment)
    from Cons[of tbl1] obtain tbl' where
      r: "count_models fs tbl1 = Inr tbl'"
      and d: "distinct (map fst tbl1) \<longrightarrow> distinct (map fst tbl')"
      and mp: "map_of tbl' = table_after (map_of tbl1) fs" by blast
    have e: "table_after (map_of tbl1) fs = table_after (map_of tbl) (f # fs)"
      unfolding m1 by (rule table_after_count) (rule cnt)
    have "count_models (f # fs) tbl = Inr tbl'" by (simp only: step r)
    moreover have "distinct (map fst tbl) \<longrightarrow> distinct (map fst tbl')" using d1 d by blast
    moreover have "map_of tbl' = table_after (map_of tbl) (f # fs)" by (simp only: mp e)
    ultimately show ?thesis by blast
  qed
qed

lemma tally_mset: "mset fs = mset fs' \<Longrightarrow> tally fs g = tally fs' g"
proof -
  assume "mset fs = mset fs'"
  then have "mset (filter (\<lambda>f. counted_toward f g) fs) = mset (filter (\<lambda>f. counted_toward f g) fs')"
    by (simp only: mset_filter)
  then show ?thesis unfolding tally_def by (rule mset_eq_length)
qed

lemma scan_for_models_listed:
  assumes "dirs w d = Some fs"
  shows "scan_for_models w d = (count_models fs [], emit (ListDir d) w)"
  using assms by (simp add: scan_for_models_def emit_def)

lemma table_after_empty:
  "table_after Map.empty fs g = (if tally fs g = 0 then None else Some (int (tally fs g)))"
  by (simp add: table_after_def)

lemma scan_table:
  assumes "dirs w d = Some fs"
  shows "\<exists>tbl. scan_for_models w d = (Inr tbl, emit (ListDir d) w) \<and>
               distinct (map fst tbl) \<and> map_of tbl = table_after Map.empty fs"
proof -
  from count_models_table[of fs "[]"] obtain tbl where
    "count_models fs [] = Inr tbl" "distinct (map fst tbl)"
    "map_of tbl = table_after (map_of []) fs" by auto
  then show ?thesis using scan_for_models_listed[OF assms] by simp
qed

lemma table_after_mset:
  assumes "mset fs = mset fs'"
  shows "table_after mp fs = table_after mp fs'"
  by (rule ext) (simp add: table_after_def tally_mset[OF assms])

lemma counted_toward_eval:
  "counted_toward f g \<longleftrightarrow>
     str_contains ''.Test.'' f \<and>
     (case str_split f ''.Test.'' of Inl e \<Rightarrow> False
      | Inr parts \<Rightarrow> (case list_index parts 0 of Inl e \<Rightarrow> False | Inr m \<Rightarrow> g = m))"
proof (cases "str_contains ''.Test.'' f")
  case False
  then show ?thesis by (simp only: not_counted[OF False] simp_thms)
next
  case True
  from model_name_of[OF True] obtain parts m where
    sp: "str_split f ''.Test.'' = Inr parts" and ix: "list_index parts 0 = Inr m"
    and cnt: "\<And>g. counted_toward f g \<longleftrightarrow> g = m" by blast
  show ?thesis by (simp only: True sp ix cnt sum.case simp_thms)
qed


text \<open>
  C2. Scanning a directory that can be listed returns a table in which every group name
  \<open>g\<close> is bound to the number of entries that contain \<open>.Test.\<close> and have \<open>g\<close> before
  its first occurrence, and is unbound when there is no such entry; entries without
  \<open>.Test.\<close> are counted nowhere. A listing made of \<open>A.Test.001.xml\<close>,
  \<open>A.Test.002.xml\<close> and \<open>B.Test.001.xml\<close> gives the table \<open>{A: 2, B: 1}\<close>.
\<close>

theorem scan_for_models_tally:
  assumes "dirs w d = Some fs"
  shows "\<exists>tbl w'. scan_for_models w d = (Inr tbl, w') \<and>
           (\<forall>g. map_of tbl g = (if tally fs g = 0 then None else Some (int (tally fs g)))) \<and>
           (mset fs = mset [''A.Test.001.xml'', ''A.Test.002.xml'', ''B.Test.001.xml'']
              \<longrightarrow> map_of tbl = map_of [(''A'', 2), (''B'', 1)])"
proof -
  let ?ex = "[''A.Test.001.xml'', ''A.Test.002.xml'', ''B.Test.001.xml'']"
  from scan_table[OF assms] obtain tbl where
    s: "scan_for_models w d = (Inr tbl, emit (ListDir d) w)"
    and m: "map_of tbl = table_after Map.empty fs" by blast
  have a: "\<forall>g. map_of tbl g = (if tally fs g = 0 then None else Some (int (tally fs g)))"
    by (simp only: m table_after_empty simp_thms)
  have b: "map_of tbl = map_of [(''A'', 2), (''B'', 1)]" if p: "mset fs = mset ?ex"
  proof -
    have "count_models ?ex [] = Inr [(''A'', 2), (''B'', 1)]" by code_simp
    moreover from count_models_table[of ?ex "[]"] obtain t where
      "count_models ?ex [] = Inr t" "map_of t = table_after (map_of []) ?ex" by blast
    ultimately have "map_of [(''A'', 2), (''B'', 1)] = table_after Map.empty ?ex" by simp
    then show ?thesis by (simp only: m table_after_mset[OF p])
  qed
  from s a b show ?thesis by blast
qed

theorem scan_for_models_tally_witness:
  "\<exists>tbl w'.
     scan_for_models
       \<lparr>files = Map.empty,
        dirs = [''scripts'' \<mapsto> [''B.Test.001.xml'', ''notes.txt'', ''A.Test.001.xml'', ''A.Test.002.xml'']],
        wdenied = {}, wfault = Map.empty, log = []\<rparr> ''scripts'' = (Inr tbl, w') \<and>
     map_of tbl ''A'' = Some 2 \<and> map_of tbl ''B'' = Some 1 \<and> map_of tbl ''notes.txt'' = None"
proof -
  let ?fs = "[''B.Test.001.xml'', ''notes.txt'', ''A.Test.001.xml'', ''A.Test.002.xml'']"
  let ?w = "\<lparr>files = Map.empty, dirs = [''scripts'' \<mapsto> ?fs], wdenied = {}, wfault = Map.empty, log = []\<rparr>"
  have d: "dirs ?w ''scripts'' = Some ?fs" by simp
  have t: "tally ?fs ''A'' = 2" "tally ?fs ''B'' = 1" "tally ?fs ''notes.txt'' = 0"
    by (simp_all add: tally_def counted_toward_eval str_split_def list_index_def)
  from scan_for_models_tally[OF d] obtain tbl w' where
    s: "scan_for_models ?w ''scripts'' = (Inr tbl, w')"
    and m: "\<forall>g. map_of tbl g = (if tally ?fs g = 0 then None else Some (int (tally ?fs g)))"
    by blast
  from m have "map_of tbl ''A'' = Some 2" "map_of tbl ''B'' = Some 1" "map_of tbl ''notes.txt'' = None"
    by (simp_all only: t) simp_all
  with s show ?thesis by blast
qed

text \<open>
  C9. Scanning a permutation of a listing gives the same table, as a mapping from group
  names to counts, as scanning the listing itself.
\<close>

theorem scan_for_models_order_independent:
  assumes "dirs w d = Some fs" "dirs w' d' = Some fs'" "mset fs' = mset fs"
  shows "\<exists>tbl tbl'. fst (scan_for_models w d) = Inr tbl \<and>
                    fst (scan_for_models w' d') = Inr tbl' \<and>
                    map_of tbl = map_of tbl'"
proof -
  from scan_table[OF assms(1)] obtain tbl where
    s: "scan_for_models w d = (Inr tbl, emit (ListDir d) w)"
    and m: "map_of tbl = table_after Map.empty fs" by blast
  from scan_table[OF assms(2)] obtain tbl' where
    s': "scan_for_models w' d' = (Inr tbl', emit (ListDir d') w')"
    and m': "map_of tbl' = table_after Map.empty fs'" by blast
  have "map_of tbl = map_of tbl'" by (simp only: m m' table_after_mset[OF assms(3)])
  moreover have "fst (scan_for_models w d) = Inr tbl" by (simp only: s fst_conv)
  moreover have "fst (scan_for_models w' d') = Inr tbl'" by (simp only: s' fst_conv)
  ultimately show ?thesis by blast
qed

theorem scan_for_models_order_independent_witness:
  "\<exists>tbl tbl'.
     fst (scan_for_models
            \<lparr>files = Map.empty,
             dirs = [''one'' \<mapsto> [''A.Test.001.xml'', ''B.Test.001.xml'', ''A.Test.002.xml''],
                     ''two'' \<mapsto> [''B.Test.001.xml'', ''A.Test.002.xml'', ''A.Test.001.xml'']],
             wdenied = {}, wfault = Map.empty, log = []\<rparr> ''one'') = Inr tbl \<and>
     fst (scan_for_models
            \<lparr>files = Map.empty,
             dirs = [''one'' \<mapsto> [''A.Test.001.xml'', ''B.Test.001.xml'', ''A.Test.002.xml''],
                     ''two'' \<mapsto> [''B.Test.001.xml'', ''A.Test.002.xml'', ''A.Test.001.xml'']],
             wdenied = {}, wfault = Map.empty, log = []\<rparr> ''two'') = Inr tbl' \<and>
     map_of tbl = map_of tbl'"
proof -
  let ?one = "[''A.Test.001.xml'', ''B.Test.001.xml'', ''A.Test.002.xml'']"
  let ?two = "[''B.Test.001.xml'', ''A.Test.002.xml'', ''A.Test.001.xml'']"
  let ?w = "\<lparr>files = Map.empty, dirs = [''one'' \<mapsto> ?one, ''two'' \<mapsto> ?two],
             wdenied = {}, wfault = Map.empty, log = []\<rparr>"
  have a: "dirs ?w ''one'' = Some ?one" by simp
  have b: "dirs ?w ''two'' = Some ?two" by simp
  have c: "mset ?two = mset ?one" by simp
  from scan_for_models_order_independent[OF a b c] show ?thesis .
qed

subsection \<open>Writing\<close>

lemma str_endswith_snoc: "str_endswith (d @ [c]) [c]"
  by (simp add: str_endswith_def)

lemma dest_path_eq:
  "dest_path g d = (if str_endswith d [CHR 0x5C] then d else d @ [CHR 0x5C]) @ g @ ''.xml''"
  by (simp add: dest_path_def Let_def)

lemma create_main_file_ok:
  assumes "dest_path g d \<notin> wdenied w" "wfault w (dest_path g d) = None"
  shows "create_main_file w g t d =
           (Inr 0, w\<lparr>log := log w @ [OpenWrite (dest_path g d)],
                     files := (files w)(dest_path g d \<mapsto> Text t)\<rparr>)"
  using assms by (simp add: create_main_file_def Let_def emit_def)




text \<open>
  C5. When the destination can be opened for writing and the write does not fail,
  \<open>create_main_file\<close> leaves the
  text it was given in the file \<open>g.xml\<close> of the destination folder, whatever the file
  held before, and changes no other file; a second write leaves the text of the second
  write. The path is the folder, one backslash and the file name, whether or not the
  folder was given with a backslash at its end.
\<close>

theorem create_main_file_last_write_wins:
  assumes "dest_path g d \<notin> wdenied w" "wfault w (dest_path g d) = None"
  shows "(\<exists>w1 w2.
            create_main_file w g t1 d = (Inr 0, w1) \<and>
            files w1 (dest_path g d) = Some (Text t1) \<and>
            (\<forall>p. p \<noteq> dest_path g d \<longrightarrow> files w1 p = files w p) \<and>
            create_main_file w1 g t2 d = (Inr 0, w2) \<and>
            files w2 = (files w1)(dest_path g d \<mapsto> Text t2) \<and>
            files w2 (dest_path g d) = Some (Text t2)) \<and>
         dest_path g (d0 @ [CHR 0x5C]) = d0 @ [CHR 0x5C] @ g @ ''.xml'' \<and>
         (\<not> str_endswith d0 [CHR 0x5C] \<longrightarrow>
            dest_path g d0 = d0 @ [CHR 0x5C] @ g @ ''.xml'')"
proof -
  let ?p = "dest_path g d"
  let ?w1 = "w\<lparr>log := log w @ [OpenWrite ?p], files := (files w)(?p \<mapsto> Text t1)\<rparr>"
  let ?w2 = "?w1\<lparr>log := log ?w1 @ [OpenWrite ?p], files := (files ?w1)(?p \<mapsto> Text t2)\<rparr>"
  have a: "create_main_file w g t1 d = (Inr 0, ?w1)" by (rule create_main_file_ok[OF assms])
  have "?p \<notin> wdenied ?w1" "wfault ?w1 ?p = None" using assms by simp_all
  then have b: "create_main_file ?w1 g t2 d = (Inr 0, ?w2)" by (rule create_main_file_ok)
  have c: "files ?w1 ?p = Some (Text t1)" "\<forall>p. p \<noteq> ?p \<longrightarrow> files ?w1 p = files w p"
    "files ?w2 = (files ?w1)(?p \<mapsto> Text t2)" "files ?w2 ?p = Some (Text t2)"
    by simp_all
  have d: "dest_path g (d0 @ [CHR 0x5C]) = d0 @ [CHR 0x5C] @ g @ ''.xml''"
    by (simp add: dest_path_eq str_endswith_snoc)
  have e: "\<not> str_endswith d0 [CHR 0x5C] \<longrightarrow> dest_path g d0 = d0 @ [CHR 0x5C] @ g @ ''.xml''"
    by (simp add: dest_path_eq)
  from a b c d e show ?thesis by blast
qed

theorem create_main_file_last_write_wins_witness:
  "(\<exists>w1 w2.
      create_main_file
        \<lparr>files = [''out'' @ [CHR 0x5C] @ ''A.xml'' \<mapsto> Text ''old''], dirs = Map.empty,
         wdenied = {}, wfault = Map.empty, log = []\<rparr> ''A'' ''new'' ''out'' = (Inr 0, w1) \<and>
      files w1 (''out'' @ [CHR 0x5C] @ ''A.xml'') = Some (Text ''new'') \<and>
      create_main_file w1 ''A'' ''new'' ''out'' = (Inr 0, w2) \<and>
      files w2 (''out'' @ [CHR 0x5C] @ ''A.xml'') = Some (Text ''new'')) \<and>
   dest_path ''A'' (''out'' @ [CHR 0x5C]) = ''out'' @ [CHR 0x5C] @ ''A.xml'' \<and>
   dest_path ''A'' ''out'' = ''out'' @ [CHR 0x5C] @ ''A.xml''"
proof -
  let ?w = "\<lparr>files = [''out'' @ [CHR 0x5C] @ ''A.xml'' \<mapsto> Text ''old''], dirs = Map.empty,
             wdenied = {}, wfault = Map.empty, log = []\<rparr>"
  have p: "dest_path ''A'' ''out'' = ''out'' @ [CHR 0x5C] @ ''A.xml''"
    by (simp add: dest_path_def str_endswith_def)
  have a: "dest_path ''A'' ''out'' \<notin> wdenied ?w" "wfault ?w (dest_path ''A'' ''out'') = None"
    by simp_all
  have b: "\<not> str_endswith ''out'' [CHR 0x5C]" by (simp add: str_endswith_def)
  from create_main_file_last_write_wins[where g="''A''" and d="''out''" and w="?w"
      and ?t1.0="''new''" and ?t2.0="''new''" and ?d0.0="''out''", OF a] b
  show ?thesis unfolding p by (simp only: append.simps simp_thms) blast
qed

subsection \<open>The entry point\<close>

text \<open>
  C7. When \<open>platform.system()\<close> is not \<open>Windows\<close>, \<open>main\<close> exits with status 1 and has
  done nothing but print its message: no file was opened, no directory listed, no file
  written.
\<close>

theorem main_refuses_other_platform:
  assumes "platform_system \<noteq> ''Windows''"
  shows "fst (main platform_system a w) = Exit 1 \<and>
         exit_status (fst (main platform_system a w)) = 1 \<and>
         files (snd (main platform_system a w)) = files w \<and>
         io_events (snd (main platform_system a w)) = io_events w \<and>
         log (snd (main platform_system a w)) =
           log w @ [Print ''This script only runs properly on Windows.\<newline>'']"
  using assms by (simp add: main_def emit_def io_events_def)

theorem main_refuses_other_platform_witness:
  "fst (main ''Linux''
          \<lparr>origin_folder = ''in'', destination_folder = ''out'',
           path_to_header = ''h'', path_to_footer = ''f'', verbose = True\<rparr>
          \<lparr>files = [''h'' \<mapsto> Text ''<H>'', ''f'' \<mapsto> Text ''<F>''],
           dirs = [''in'' \<mapsto> [''A.Test.001.xml'']], wdenied = {}, wfault = Map.empty, log = []\<rparr>) = Exit 1 \<and>
   snd (main ''Linux''
          \<lparr>origin_folder = ''in'', destination_folder = ''out'',
           path_to_header = ''h'', path_to_footer = ''f'', verbose = True\<rparr>
          \<lparr>files = [''h'' \<mapsto> Text ''<H>'', ''f'' \<mapsto> Text ''<F>''],
           dirs = [''in'' \<mapsto> [''A.Test.001.xml'']], wdenied = {}, wfault = Map.empty, log = []\<rparr>) =
     \<lparr>files = [''h'' \<mapsto> Text ''<H>'', ''f'' \<mapsto> Text ''<F>''],
      dirs = [''in'' \<mapsto> [''A.Test.001.xml'']], wdenied = {}, wfault = Map.empty,
      log = [Print ''This script only runs properly on Windows.\<newline>'']\<rparr>"
proof -
  have "''Linux'' \<noteq> ''Windows''" by simp
  from main_refuses_other_platform[OF this] show ?thesis
    by (simp add: main_def emit_def)
qed

subsection \<open>The write loop and the runs of \<open>main\<close>\<close>

lemma open_writes_simps:
  "open_writes d [] = []"
  "open_writes d ((g, c) # tbl) = OpenWrite (dest_path g d) # open_writes d tbl"
  "open_writes d (xs @ ys) = open_writes d xs @ open_writes d ys"
  by (simp_all add: open_writes_def)

lemma io_events_open_writes:
  "filter (\<lambda>e. \<not> is_print e) (open_writes d tbl) = open_writes d tbl"
  by (induction tbl) (auto simp: open_writes_def)

lemma write_models_append:
  assumes "list_all (writable w d) pre"
  shows "write_models w (pre @ rest) h f d =
           write_models
             (w\<lparr>log := log w @ open_writes d pre, files := written h f d pre (files w)\<rparr>)
             rest h f d"
  using assms
proof (induction pre arbitrary: w)
  case Nil
  show ?case by (simp add: open_writes_simps)
next
  case (Cons x pre)
  obtain g c where x: "x = (g, c)" by (cases x)
  let ?w1 = "w\<lparr>log := log w @ [OpenWrite (dest_path g d)],
                files := (files w)(dest_path g d \<mapsto> Text (create_main_string g c h f))\<rparr>"
  from Cons.prems x have ok: "dest_path g d \<notin> wdenied w" "wfault w (dest_path g d) = None"
    and rest: "list_all (writable w d) pre"
    by (simp_all add: writable_def)
  have "writable ?w1 d = writable w d" by (simp add: writable_def)
  with rest have "list_all (writable ?w1 d) pre" by simp
  then have ih: "write_models ?w1 (pre @ rest) h f d =
      write_models
        (?w1\<lparr>log := log ?w1 @ open_writes d pre, files := written h f d pre (files ?w1)\<rparr>)
        rest h f d"
    by (rule Cons.IH)
  have e: "?w1\<lparr>log := log ?w1 @ open_writes d pre, files := written h f d pre (files ?w1)\<rparr> =
           w\<lparr>log := log w @ open_writes d (x # pre),
             files := written h f d (x # pre) (files w)\<rparr>"
    by (simp add: x open_writes_simps)
  have "write_models w ((x # pre) @ rest) h f d = write_models ?w1 (pre @ rest) h f d"
    by (simp add: x create_main_file_ok[OF ok])
  also note ih
  also note e
  finally show ?case .
qed

lemma write_models_all_ok:
  assumes "list_all (writable w d) tbl"
  shows "write_models w tbl h f d =
           (None, w\<lparr>log := log w @ open_writes d tbl, files := written h f d tbl (files w)\<rparr>)"
  using write_models_append[OF assms, of "[]" h f] by simp




lemma dest_path_inj: "dest_path g d = dest_path g' d \<Longrightarrow> g = g'"
  by (simp add: dest_path_eq)

lemma written_other:
  "p \<notin> (\<lambda>(g, c). dest_path g d) ` set tbl \<Longrightarrow> written h f d tbl fm p = fm p"
  by (induction tbl arbitrary: fm) auto

lemma dest_path_fresh:
  assumes "g \<notin> fst ` set tbl"
  shows "dest_path g d \<notin> (\<lambda>(g, c). dest_path g d) ` set tbl"
proof
  assume "dest_path g d \<in> (\<lambda>(g, c). dest_path g d) ` set tbl"
  then obtain g2 c2 where m: "(g2, c2) \<in> set tbl" and "dest_path g d = dest_path g2 d"
    by auto
  then have "g = g2" by (simp add: dest_path_inj)
  with m have "g \<in> fst ` set tbl" by force
  with assms show False by simp
qed

lemma written_lookup:
  "distinct (map fst tbl) \<Longrightarrow> (g, c) \<in> set tbl \<Longrightarrow>
   written h f d tbl fm (dest_path g d) = Some (Text (create_main_string g c h f))"
proof (induction tbl arbitrary: fm)
  case Nil
  then show ?case by simp
next
  case (Cons x tbl)
  obtain g' c' where x: "x = (g', c')" by (cases x)
  show ?case
  proof (cases "(g, c) \<in> set tbl")
    case True
    with Cons x show ?thesis by simp
  next
    case False
    with Cons.prems x have e: "g' = g" "c' = c" by simp_all
    from Cons.prems(1) x e have "g \<notin> fst ` set tbl" by simp
    then have "dest_path g d \<notin> (\<lambda>(g, c). dest_path g d) ` set tbl" by (rule dest_path_fresh)
    then show ?thesis using x e by (simp add: written_other)
  qed
qed

lemma writable_log: "writable (w\<lparr>log := l\<rparr>) d = writable w d"
  by (simp add: writable_def)

lemma readable_Text: "files w p = Some (Text t) \<Longrightarrow> readable w p"
  by (simp add: readable_def)



lemmas main_unfold =
  main_def load_header_def load_footer_def scan_for_models_def emit_def Let_def io_events_def




lemma main_all_written:
  assumes "p = ''Windows''" "files w (path_to_header a) = Some (Text header)"
    "files w (path_to_footer a) = Some (Text footer)" "dirs w (origin_folder a) = Some fs"
    "count_models fs [] = Inr tbl"
    "list_all (writable w (destination_folder a)) tbl"
  shows "fst (main p a w) = Exit 0 \<and>
         files (snd (main p a w)) =
           written header footer (destination_folder a) tbl (files w) \<and>
         dirs (snd (main p a w)) = dirs w \<and>
         wdenied (snd (main p a w)) = wdenied w \<and>
         wfault (snd (main p a w)) = wfault w \<and>
         io_events (snd (main p a w)) =
           io_events w @ [OpenRead (path_to_header a), OpenRead (path_to_footer a),
                          ListDir (origin_folder a)] @
           open_writes (destination_folder a) tbl"
  using assms
  by (cases "verbose a")
     (simp_all add: main_unfold write_models_all_ok writable_log io_events_open_writes)




lemma count_models_total:
  obtains tbl where "count_models fs [] = Inr tbl" "distinct (map fst tbl)"
    "map_of tbl = table_after Map.empty fs"
proof -
  from count_models_table[of fs "[]"] obtain tbl where
    "count_models fs [] = Inr tbl" "distinct (map fst tbl)"
    "map_of tbl = table_after (map_of []) fs" by auto
  then show ?thesis using that by simp
qed















subsection \<open>Entries that begin with the delimiter\<close>

lemma counted_toward_empty:
  assumes "prefix ''.Test.'' f"
  shows "counted_toward f g \<longleftrightarrow> g = []"
proof -
  from assms obtain r where f: "f = [] @ ''.Test.'' @ r" by (auto simp: prefix_def)
  then have s: "sublist ''.Test.'' f" unfolding sublist_def by blast
  have "is_part_before_first ''.Test.'' f []"
    unfolding is_part_before_first_def using f by simp
  with s have c: "counted_toward f []" by (simp add: counted_toward_def)
  show ?thesis
  proof
    assume "counted_toward f g"
    then have "is_part_before_first ''.Test.'' f g" by (simp add: counted_toward_def)
    from this \<open>is_part_before_first ''.Test.'' f []\<close> show "g = []"
      by (rule part_before_first_unique)
  next
    assume "g = []"
    with c show "counted_toward f g" by simp
  qed
qed

lemma tally_pos:
  assumes "f \<in> set fs" "counted_toward f g"
  shows "0 < tally fs g"
proof -
  from assms have "f \<in> set (filter (\<lambda>f. counted_toward f g) fs)" by simp
  then have "filter (\<lambda>f. counted_toward f g) fs \<noteq> []" by (metis empty_iff list.set(1))
  then show ?thesis by (simp add: tally_def)
qed

lemma written_member:
  assumes "p = ''Windows''" "files w (path_to_header a) = Some (Text header)"
    "files w (path_to_footer a) = Some (Text footer)" "dirs w (origin_folder a) = Some fs"
    "all_steps_succeed p a w" "0 < tally fs g"
  shows "fst (main p a w) = Exit 0 \<and>
         files (snd (main p a w)) (dest_path g (destination_folder a)) =
           Some (Text (create_main_string g (int (tally fs g)) header footer))"
proof -
  obtain tbl where t: "count_models fs [] = Inr tbl" and d: "distinct (map fst tbl)"
    and m: "map_of tbl = table_after Map.empty fs" by (rule count_models_total)
  from assms(5) assms(4) t have ok: "list_all (writable w (destination_folder a)) tbl"
    by (simp add: all_steps_succeed_def del: count_models.simps)
  note r = main_all_written[OF assms(1-4) t ok]
  from m assms(6) have "map_of tbl g = Some (int (tally fs g))"
    by (simp add: table_after_empty)
  then have "(g, int (tally fs g)) \<in> set tbl" by (rule map_of_SomeD)
  with d have "written header footer (destination_folder a) tbl (files w)
                 (dest_path g (destination_folder a)) =
               Some (Text (create_main_string g (int (tally fs g)) header footer))"
    by (rule written_lookup)
  with r show ?thesis by simp
qed


text \<open>
  C10. An entry whose name begins with \<open>.Test.\<close> is counted toward the group with the
  empty name, and to no other. The file of that group is named \<open>.xml\<close> in the
  destination folder, and a run in which every step succeeds leaves in it the header,
  one include line for each \<open>.Test.{i}.xml\<close> up to the number of such entries, and
  the footer.
\<close>

theorem delimiter_first_gives_empty_group:
  \<open>(prefix ''.Test.'' f \<longrightarrow> (\<forall>g. counted_toward f g \<longleftrightarrow> g = [])) \<and>
   dest_path [] d = (if str_endswith d [CHR 0x5C] then d else d @ [CHR 0x5C]) @ ''.xml'' \<and>
   (all_steps_succeed p a w \<and> files w (path_to_header a) = Some (Text header) \<and>
    files w (path_to_footer a) = Some (Text footer) \<and> dirs w (origin_folder a) = Some fs \<and>
    (\<exists>f \<in> set fs. prefix ''.Test.'' f) \<longrightarrow>
      fst (main p a w) = Exit 0 \<and> 0 < tally fs [] \<and>
      files (snd (main p a w)) (dest_path [] (destination_folder a)) =
        Some (Text (header @
              concat (map (\<lambda>i. ''<INCLUDE FileName=".Test.'' @ format_03d i @
                                  ''.xml" NameSpace="" TAB="10" LineComment="0"/>\<newline>'')
                        [1..int (tally fs [])]) @
              footer)))\<close>
proof (intro conjI impI allI)
  fix g assume "prefix ''.Test.'' f"
  then show "counted_toward f g \<longleftrightarrow> g = []" by (rule counted_toward_empty)
next
  show "dest_path [] d = (if str_endswith d [CHR 0x5C] then d else d @ [CHR 0x5C]) @ ''.xml''"
    by (simp add: dest_path_eq)
next
  assume h: "all_steps_succeed p a w \<and> files w (path_to_header a) = Some (Text header) \<and>
    files w (path_to_footer a) = Some (Text footer) \<and> dirs w (origin_folder a) = Some fs \<and>
    (\<exists>f \<in> set fs. prefix ''.Test.'' f)"
  then obtain f where f: "f \<in> set fs" "prefix ''.Test.'' f" by blast
  then have pos: "0 < tally fs []" using counted_toward_empty[of f "[]"] tally_pos by blast
  from h have win: "p = ''Windows''" by (simp add: all_steps_succeed_def)
  from h have hs: "files w (path_to_header a) = Some (Text header)"
    "files w (path_to_footer a) = Some (Text footer)" "dirs w (origin_folder a) = Some fs"
    "all_steps_succeed p a w" by blast+
  note r = written_member[OF win hs pos]
  have e: \<open>create_main_string [] (int (tally fs [])) header footer =
        header @
        concat (map (\<lambda>i. ''<INCLUDE FileName=".Test.'' @ format_03d i @
                            ''.xml" NameSpace="" TAB="10" LineComment="0"/>\<newline>'')
                  [1..int (tally fs [])]) @
        footer\<close>
    by (simp add: create_main_string_def fold_add_include add_include_def)
  from r show "fst (main p a w) = Exit 0" by simp
  from pos show "0 < tally fs []" .
  from r e show \<open>files (snd (main p a w)) (dest_path [] (destination_folder a)) =
        Some (Text (header @
              concat (map (\<lambda>i. ''<INCLUDE FileName=".Test.'' @ format_03d i @
                                  ''.xml" NameSpace="" TAB="10" LineComment="0"/>\<newline>'')
                        [1..int (tally fs [])]) @
              footer))\<close> by simp
qed

theorem delimiter_first_gives_empty_group_witness:
  \<open>fst (main ''Windows'' demo_args
          (demo_world\<lparr>dirs := [''in'' \<mapsto> [''.Test.001.xml'', ''.Test.002.xml'']]\<rparr>)) = Exit 0 \<and>
   files (snd (main ''Windows'' demo_args
          (demo_world\<lparr>dirs := [''in'' \<mapsto> [''.Test.001.xml'', ''.Test.002.xml'']]\<rparr>)))
     (''out'' @ [CHR 0x5C] @ ''.xml'') =
     Some (Text (''<H>'' @
           ''<INCLUDE FileName=".Test.001.xml" NameSpace="" TAB="10" LineComment="0"/>\<newline>'' @
           ''<INCLUDE FileName=".Test.002.xml" NameSpace="" TAB="10" LineComment="0"/>\<newline>'' @
           ''<F>''))\<close>
proof -
  let ?fs = "[''.Test.001.xml'', ''.Test.002.xml'']"
  let ?w = "demo_world\<lparr>dirs := [''in'' \<mapsto> ?fs]\<rparr>"
  have cm: "count_models ?fs [] = Inr [([], 2)]" by code_simp
  have ok: "all_steps_succeed ''Windows'' demo_args ?w"
    by (simp add: all_steps_succeed_def readable_def demo_args_def demo_world_def cm writable_def
          del: count_models.simps)
  have p1: "prefix ''.Test.'' ''.Test.001.xml''" and p2: "prefix ''.Test.'' ''.Test.002.xml''"
    by simp_all
  have t: "tally ?fs [] = 2"
    by (simp add: tally_def counted_toward_empty[OF p1] counted_toward_empty[OF p2])
  have r: "[1..int 2] = [1, 2]" by (simp add: upto_rec1)
  have f: "format_03d 1 = ''001''" "format_03d 2 = ''002''" by code_simp+
  have dp: "dest_path [] (destination_folder demo_args) = ''out'' @ [CHR 0x5C] @ ''.xml''"
    by (simp add: dest_path_def str_endswith_def demo_args_def)
  have h: "all_steps_succeed ''Windows'' demo_args ?w \<and>
      files ?w (path_to_header demo_args) = Some (Text ''<H>'') \<and>
      files ?w (path_to_footer demo_args) = Some (Text ''<F>'') \<and>
      dirs ?w (origin_folder demo_args) = Some ?fs \<and>
      (\<exists>f \<in> set ?fs. prefix ''.Test.'' f)"
    using ok by (simp add: demo_args_def demo_world_def)
  from delimiter_first_gives_empty_group[where p="''Windows''" and a=demo_args and w="?w"
      and header="''<H>''" and footer="''<F>''" and fs="?fs" and f="''.Test.001.xml''" and d="''out''"]
  have \<open>all_steps_succeed ''Windows'' demo_args ?w \<and>
      files ?w (path_to_header demo_args) = Some (Text ''<H>'') \<and>
      files ?w (path_to_footer demo_args) = Some (Text ''<F>'') \<and>
      dirs ?w (origin_folder demo_args) = Some ?fs \<and>
      (\<exists>f \<in> set ?fs. prefix ''.Test.'' f) \<longrightarrow>
      fst (main ''Windows'' demo_args ?w) = Exit 0 \<and> 0 < tally ?fs [] \<and>
      files (snd (main ''Windows'' demo_args ?w)) (dest_path [] (destination_folder demo_args)) =
        Some (Text (''<H>'' @
              concat (map (\<lambda>i. ''<INCLUDE FileName=".Test.'' @ format_03d i @
                                  ''.xml" NameSpace="" TAB="10" LineComment="0"/>\<newline>'')
                        [1..int (tally ?fs [])]) @
              ''<F>''))\<close>
    by (rule conjunct2[THEN conjunct2])
  from this[rule_format, OF h] show ?thesis
    unfolding t r dp by (simp add: f)
qed

end
